theory Spec2Isabelle
  imports Complex_Main
begin

section \<open>GPS path plotting (map.py)\<close>

text \<open>
  The program reads longitude/latitude rows from a CSV file, keeps the rows inside a fixed
  box, and, when at least 1000 rows remain, plots them over a basemap whose zoom level is
  estimated from the bounding box of the rows.

  Modelling decisions.
  \<^item> A coordinate is a finite Python \<open>float\<close>, modelled by the real number it denotes;
    comparisons, \<open>min\<close> and \<open>max\<close> of such values are exact. The float arithmetic of
    \<open>estimate_zoom\<close> is binary64 arithmetic: every result of \<open>-\<close> and \<open>/\<close> is rounded to
    the nearest binary64 value, ties to even, and becomes \<open>inf\<close> above the largest finite
    value; \<open>inf\<close> and \<open>nan\<close> are values of the intermediate type \<open>fl\<close>.
  \<^item> \<open>np.log\<close> is a library function whose last digits are not fixed by the source: it
    is the parameter \<open>lg\<close>, the finite binary64 value returned for a positive finite
    argument. Facts that depend on its accuracy assume \<open>np_log_accurate lg\<close>.
  \<^item> Exceptions are values: a function that may raise returns \<open>error + 'a\<close>.
  \<^item> Everything printed or drawn is an \<open>event\<close>; a function with effects returns the list
    of its events, in order, next to its result.
  \<^item> The builtin \<open>float(str)\<close> is a parameter \<open>pf\<close> (\<open>None\<close> where it raises
    ValueError), and the input file is the list of rows that \<open>csv.DictReader\<close> yields.
\<close>

subsection \<open>Data\<close>

datatype error = KeyError | TypeError | ValueError | OverflowError

text \<open>A field of a \<open>DictReader\<close> row is a string, or \<open>None\<close> where the line was short.\<close>

datatype cell = PyNone | Str string

type_synonym row = "string \<rightharpoonup> cell"

datatype event =
    PrintRow nat real real
  | PrintOutside real real
  | PrintSkipping string
  | PrintNoValid string
  | PlotPoints "(real \<times> real) list"
  | SetExtent real real real real
  | PrintZoom int
  | AddBasemap int
  | ShowFigure string

definition LAT_MIN :: real where "LAT_MIN = 48.5"
definition LAT_MAX :: real where "LAT_MAX = 51.5"
definition LON_MIN :: real where "LON_MIN = 12.0"
definition LON_MAX :: real where "LON_MAX = 18.9"

subsection \<open>Builtins\<close>

text \<open>\<open>float(row[key])\<close>: KeyError for a missing column, TypeError for \<open>None\<close>,
  ValueError for a string that is not a number.\<close>

definition float_field :: "(string \<Rightarrow> real option) \<Rightarrow> row \<Rightarrow> string \<Rightarrow> error + real" where
  "float_field pf r key =
     (case r key of
        None \<Rightarrow> Inl KeyError
      | Some PyNone \<Rightarrow> Inl TypeError
      | Some (Str s) \<Rightarrow> (case pf s of None \<Rightarrow> Inl ValueError | Some x \<Rightarrow> Inr x))"

text \<open>\<open>min(xs)\<close> and \<open>max(xs)\<close>: ValueError on an empty sequence; otherwise one pass
  that replaces the current value by a strictly smaller (larger) item.\<close>

definition py_min :: "real list \<Rightarrow> error + real" where
  "py_min xs =
     (case xs of
        [] \<Rightarrow> Inl ValueError
      | x # rest \<Rightarrow> Inr (fold (\<lambda>item cur. if item < cur then item else cur) rest x))"

definition py_max :: "real list \<Rightarrow> error + real" where
  "py_max xs =
     (case xs of
        [] \<Rightarrow> Inl ValueError
      | x # rest \<Rightarrow> Inr (fold (\<lambda>item cur. if item > cur then item else cur) rest x))"

subsection \<open>Binary64 arithmetic\<close>

text \<open>A binary64 value: a finite number, an infinity, or not a number. Zero has one
  sign; the source never divides by a zero.\<close>

datatype fl = Fin real | PInf | NInf | NaN

text \<open>Rounding to the nearest integer, ties to even.\<close>

definition rne :: "real \<Rightarrow> int" where
  "rne v = (let n = \<lfloor>v\<rfloor>; d = v - of_int n
            in if d < 1/2 then n else if 1/2 < d then n + 1
               else if even n then n else n + 1)"

text \<open>
  The exponent of a number, not below that of the smallest normal number, and the
  distance \<open>ulp\<close> between neighbouring binary64 values at that exponent (53 significant
  bits, gradual underflow).
\<close>

definition expo :: "real \<Rightarrow> int" where
  "expo x = max \<lfloor>log 2 \<bar>x\<bar>\<rfloor> (- 1022)"

definition ulp :: "real \<Rightarrow> real" where
  "ulp x = 2 powr (of_int (expo x) - 52)"

text \<open>Rounding to the nearest multiple of \<open>ulp\<close>, with the sign kept; \<open>b64\<close> is the
  binary64 result, an infinity when the rounded magnitude reaches \<open>2 ^ 1024\<close>.\<close>

definition rd :: "real \<Rightarrow> real" where
  "rd x = (if x = 0 then 0
           else if 0 < x then of_int (rne (x / ulp x)) * ulp x
           else - (of_int (rne (- x / ulp x)) * ulp x))"

definition b64 :: "real \<Rightarrow> fl" where
  "b64 x = (let y = rd x
            in if 2 ^ 1024 \<le> y then PInf else if y \<le> - (2 ^ 1024) then NInf else Fin y)"

text \<open>Subtraction and division of floats.\<close>

fun fl_sub :: "fl \<Rightarrow> fl \<Rightarrow> fl" where
  "fl_sub (Fin a) (Fin b) = b64 (a - b)"
| "fl_sub NaN y = NaN"
| "fl_sub x NaN = NaN"
| "fl_sub PInf PInf = NaN"
| "fl_sub NInf NInf = NaN"
| "fl_sub PInf y = PInf"
| "fl_sub NInf y = NInf"
| "fl_sub (Fin a) PInf = NInf"
| "fl_sub (Fin a) NInf = PInf"

fun fl_div :: "fl \<Rightarrow> fl \<Rightarrow> fl" where
  "fl_div (Fin a) (Fin b) =
     (if b = 0 then (if a = 0 then NaN else if 0 < a then PInf else NInf) else b64 (a / b))"
| "fl_div NaN y = NaN"
| "fl_div x NaN = NaN"
| "fl_div (Fin a) y = Fin 0"
| "fl_div PInf (Fin b) = (if 0 \<le> b then PInf else NInf)"
| "fl_div NInf (Fin b) = (if 0 \<le> b then NInf else PInf)"
| "fl_div x y = NaN"

text \<open>\<open>max(a, b)\<close> of two floats keeps \<open>a\<close> unless \<open>b > a\<close>.\<close>

fun fl_less :: "fl \<Rightarrow> fl \<Rightarrow> bool" where
  "fl_less (Fin a) (Fin b) = (a < b)"
| "fl_less NaN y = False"
| "fl_less x NaN = False"
| "fl_less x NInf = False"
| "fl_less PInf y = False"
| "fl_less x y = True"

definition py_max2 :: "fl \<Rightarrow> fl \<Rightarrow> fl" where
  "py_max2 a b = (if fl_less a b then b else a)"

text \<open>\<open>np.log\<close>: \<open>lg\<close> on a positive finite argument, \<open>-inf\<close> at zero, \<open>nan\<close> below
  zero.\<close>

fun np_log :: "(real \<Rightarrow> real) \<Rightarrow> fl \<Rightarrow> fl" where
  "np_log lg (Fin a) = (if 0 < a then Fin (lg a) else if a = 0 then NInf else NaN)"
| "np_log lg PInf = PInf"
| "np_log lg NInf = NaN"
| "np_log lg NaN = NaN"

text \<open>The accuracy assumed of \<open>np.log\<close> where it matters: a relative error of at most
  \<open>2\<^sup>-\<^sup>5\<^sup>0\<close>, four units in the last place.\<close>

definition np_log_accurate :: "(real \<Rightarrow> real) \<Rightarrow> bool" where
  "np_log_accurate lg = (\<forall>x. 0 < x \<longrightarrow> \<bar>lg x - ln x\<bar> \<le> \<bar>ln x\<bar> / 2 ^ 50)"

text \<open>\<open>int(x)\<close> truncates a finite float towards zero; it raises OverflowError on an
  infinity and ValueError on \<open>nan\<close>.\<close>

fun py_int :: "fl \<Rightarrow> error + int" where
  "py_int (Fin x) = Inr (if 0 \<le> x then \<lfloor>x\<rfloor> else \<lceil>x\<rceil>)"
| "py_int PInf = Inl OverflowError"
| "py_int NInf = Inl OverflowError"
| "py_int NaN = Inl ValueError"

subsection \<open>read_gps_data\<close>

fun read_rows ::
  "(string \<Rightarrow> real option) \<Rightarrow> nat \<Rightarrow> row list \<Rightarrow> real list \<Rightarrow> real list \<Rightarrow> event list
     \<Rightarrow> event list \<times> (error + real list \<times> real list)" where
  "read_rows pf i [] longitudes latitudes out = (out, Inr (longitudes, latitudes))"
| "read_rows pf i (r # rest) longitudes latitudes out =
     (case float_field pf r ''Longitude'' of
        Inl e \<Rightarrow> (out, Inl e)
      | Inr longitude \<Rightarrow>
          (case float_field pf r ''Latitude'' of
             Inl e \<Rightarrow> (out, Inl e)
           | Inr latitude \<Rightarrow>
               (let out1 = (if i < 5 then out @ [PrintRow i longitude latitude] else out) in
                if LON_MIN \<le> longitude \<and> longitude \<le> LON_MAX \<and>
                   LAT_MIN \<le> latitude \<and> latitude \<le> LAT_MAX
                then read_rows pf (i + 1) rest
                       (longitudes @ [longitude]) (latitudes @ [latitude]) out1
                else read_rows pf (i + 1) rest longitudes latitudes
                       (out1 @ [PrintOutside longitude latitude]))))"

definition read_gps_data ::
  "(string \<Rightarrow> real option) \<Rightarrow> row list \<Rightarrow> event list \<times> (error + real list \<times> real list)" where
  "read_gps_data pf rows = read_rows pf 0 rows [] [] []"

subsection \<open>calculate_bounds\<close>

definition calculate_bounds ::
  "real list \<Rightarrow> real list \<Rightarrow> error + real \<times> real \<times> real \<times> real" where
  "calculate_bounds longitudes latitudes =
     (case py_min longitudes of Inl e \<Rightarrow> Inl e | Inr min_lon \<Rightarrow>
     (case py_max longitudes of Inl e \<Rightarrow> Inl e | Inr max_lon \<Rightarrow>
     (case py_min latitudes of Inl e \<Rightarrow> Inl e | Inr min_lat \<Rightarrow>
     (case py_max latitudes of Inl e \<Rightarrow> Inl e | Inr max_lat \<Rightarrow>
        Inr (min_lon, max_lon, min_lat, max_lat)))))"

subsection \<open>estimate_zoom\<close>

text \<open>
  The two differences are float subtractions, and \<open>12 - np.log(m) / np.log(2)\<close> is
  evaluated in floats before \<open>int\<close> truncates it. A span that overflows makes the
  expression \<open>-inf\<close>; a largest span of zero (with the other span negative) makes it
  \<open>inf\<close>, and a negative one \<open>nan\<close>: \<open>int\<close> raises in all three cases.
\<close>

definition estimate_zoom ::
  "(real \<Rightarrow> real) \<Rightarrow> real \<Rightarrow> real \<Rightarrow> real \<Rightarrow> real \<Rightarrow> error + int" where
  "estimate_zoom lg min_lon max_lon min_lat max_lat =
     (let lon_diff = fl_sub (Fin max_lon) (Fin min_lon);
          lat_diff = fl_sub (Fin max_lat) (Fin min_lat)
      in if lon_diff = Fin 0 \<and> lat_diff = Fin 0 then Inr 19
         else (case py_int (fl_sub (Fin 12)
                      (fl_div (np_log lg (py_max2 lon_diff lat_diff)) (np_log lg (Fin 2)))) of
                 Inl e \<Rightarrow> Inl e
               | Inr zoom \<Rightarrow> Inr (max 0 (min zoom 19))))"


subsection \<open>plot_gps_path\<close>

text \<open>
  The calls into geopandas, contextily and matplotlib are recorded as events, in the order
  of the source: \<open>PlotPoints\<close> for the frame built from \<open>zip(longitudes, latitudes)\<close>
  and drawn, \<open>SetExtent\<close> with the WGS84 corners that are reprojected into the axis
  limits, \<open>AddBasemap\<close> with the zoom level, \<open>ShowFigure\<close> for \<open>plt.show()\<close>.
  The failures of these libraries themselves (a tile that cannot be fetched) are outside
  the model.
\<close>

definition plot_gps_path ::
  "(real \<Rightarrow> real) \<Rightarrow> (string \<Rightarrow> real option) \<Rightarrow> string \<Rightarrow> row list
     \<Rightarrow> event list \<times> (error + unit)" where
  "plot_gps_path lg pf csv_file rows =
     (case read_gps_data pf rows of
        (out, Inl e) \<Rightarrow> (out, Inl e)
      | (out, Inr (longitudes, latitudes)) \<Rightarrow>
          if length longitudes < 1000 \<or> length latitudes < 1000
          then (out @ [PrintSkipping csv_file], Inr ())
          else if length longitudes = 0 \<or> length latitudes = 0
          then (out @ [PrintNoValid csv_file], Inr ())
          else (let out1 = out @ [PlotPoints (zip longitudes latitudes)] in
                (case calculate_bounds longitudes latitudes of
                   Inl e \<Rightarrow> (out1, Inl e)
                 | Inr (min_lon, max_lon, min_lat, max_lat) \<Rightarrow>
                     (let out2 = out1 @ [SetExtent min_lon max_lon min_lat max_lat] in
                      (case estimate_zoom lg min_lon max_lon min_lat max_lat of
                         Inl e \<Rightarrow> (out2, Inl e)
                       | Inr zoom \<Rightarrow>
                           (out2 @ [PrintZoom zoom, AddBasemap zoom, ShowFigure csv_file],
                            Inr ()))))))"

text \<open>A run rendered when it reached \<open>plt.show()\<close>.\<close>

fun is_show :: "event \<Rightarrow> bool" where
  "is_show (ShowFigure f) = True"
| "is_show e = False"

definition rendered :: "event list \<Rightarrow> bool" where
  "rendered out = list_ex is_show out"

text \<open>The events that \<open>read_gps_data\<close> prints.\<close>

fun is_read_event :: "event \<Rightarrow> bool" where
  "is_read_event (PrintRow i x y) = True"
| "is_read_event (PrintOutside x y) = True"
| "is_read_event e = False"

subsection \<open>Example inputs\<close>

text \<open>
  A fragment of \<open>float\<close>, enough for the examples below, and the \<open>DictReader\<close> row
  of a line with both columns.
\<close>

definition example_float :: "string \<Rightarrow> real option" where
  "example_float s =
     (if s = ''14.5'' then Some 14.5
      else if s = ''13.0'' then Some 13.0
      else if s = ''20.0'' then Some 20.0
      else if s = ''50.0'' then Some 50.0
      else if s = ''49.5'' then Some 49.5
      else None)"

definition csv_row :: "string \<Rightarrow> string \<Rightarrow> row" where
  "csv_row lon lat = [''Longitude'' \<mapsto> Str lon, ''Latitude'' \<mapsto> Str lat]"

section \<open>Auxiliary facts\<close>

subsection \<open>Builtins\<close>

lemma fold_lt_Min:
  "fold (\<lambda>item cur. if item < cur then item else cur) rest (x::real) = Min (set (x # rest))"
proof -
  have "(\<lambda>item cur::real. if item < cur then item else cur) = min"
    by (intro ext) (simp add: min_def)
  then show ?thesis using Min.set_eq_fold[of x rest] by simp
qed

lemma fold_gt_Max:
  "fold (\<lambda>item cur. if item > cur then item else cur) rest (x::real) = Max (set (x # rest))"
proof -
  have "(\<lambda>item cur::real. if item > cur then item else cur) = max"
    by (intro ext) (simp add: max_def)
  then show ?thesis using Max.set_eq_fold[of x rest] by simp
qed

lemma py_min_Min: "xs \<noteq> [] \<Longrightarrow> py_min xs = Inr (Min (set xs))"
  by (cases xs) (simp_all add: py_min_def fold_lt_Min del: set_simps)

lemma py_max_Max: "xs \<noteq> [] \<Longrightarrow> py_max xs = Inr (Max (set xs))"
  by (cases xs) (simp_all add: py_max_def fold_gt_Max del: set_simps)

lemma calculate_bounds_nonempty:
  "longitudes \<noteq> [] \<Longrightarrow> latitudes \<noteq> [] \<Longrightarrow>
   calculate_bounds longitudes latitudes =
     Inr (Min (set longitudes), Max (set longitudes), Min (set latitudes), Max (set latitudes))"
  by (simp add: calculate_bounds_def py_min_Min py_max_Max)

lemma Min_le_Max_list: "xs \<noteq> [] \<Longrightarrow> Min (set xs) \<le> Max (set (xs :: real list))"
  by (simp add: Min_le_iff)

subsection \<open>Rounding\<close>

lemma rne_floor: "\<lfloor>v\<rfloor> \<le> rne v \<and> rne v \<le> \<lfloor>v\<rfloor> + 1"
  by (simp add: rne_def Let_def)

lemma rne_err: "\<bar>of_int (rne v) - v\<bar> \<le> 1/2"
proof -
  have "of_int \<lfloor>v\<rfloor> \<le> v" "v < of_int \<lfloor>v\<rfloor> + 1" by linarith+
  then show ?thesis by (auto simp: rne_def Let_def)
qed

lemma rne_of_int [simp]: "rne (of_int n) = n"
  by (simp add: rne_def)


lemma rne_mono: assumes "v \<le> w" shows "rne v \<le> rne w"
proof (cases "\<lfloor>v\<rfloor> = \<lfloor>w\<rfloor>")
  case True
  with assms show ?thesis by (auto simp: rne_def Let_def)
next
  case False
  with assms have "\<lfloor>v\<rfloor> < \<lfloor>w\<rfloor>" using floor_mono[OF assms] by linarith
  with rne_floor[of v] rne_floor[of w] show ?thesis by linarith
qed

lemma rne_nonneg: "0 \<le> v \<Longrightarrow> 0 \<le> rne v"
  using rne_mono[of 0 v] rne_of_int[of 0] by simp

lemma ulp_pos: "0 < ulp x"
  by (simp add: ulp_def)

lemma expo_ge: "- 1022 \<le> expo x"
  by (simp add: expo_def)

lemma ulp_ge: "2 powr (- 1074) \<le> ulp x"
proof -
  have "(- 1074 :: real) \<le> of_int (expo x) - 52" using expo_ge[of x] by linarith
  then show ?thesis unfolding ulp_def by (intro powr_mono) simp_all
qed

lemma less_powr_expo: assumes "0 < x" shows "x < 2 powr (of_int (expo x) + 1)"
proof -
  have "log 2 x < of_int \<lfloor>log 2 x\<rfloor> + 1" by linarith
  also have "\<dots> \<le> of_int (expo x) + 1" using assms by (simp add: expo_def)
  finally have "2 powr (log 2 x) < 2 powr (of_int (expo x) + 1)"
    by (simp del: powr_log_cancel)
  with assms show ?thesis by simp
qed

lemma powr_expo_le: assumes "2 powr (- 1022) \<le> x" shows "2 powr (of_int (expo x)) \<le> x"
proof -
  have pos: "0 < x" using assms by (smt (verit) powr_gt_zero)
  have "log 2 (2 powr (- 1022)) \<le> log 2 x"
    using assms pos by (subst log_le_cancel_iff) simp_all
  then have "- 1022 \<le> log 2 x" by simp
  then have "- 1022 \<le> \<lfloor>log 2 x\<rfloor>" by (simp add: le_floor_iff)
  then have "expo x = \<lfloor>log 2 x\<rfloor>" using pos by (simp add: expo_def)
  then have "of_int (expo x) \<le> log 2 x" by simp
  then have "2 powr (of_int (expo x)) \<le> 2 powr (log 2 x)" by (intro powr_mono) simp_all
  with pos show ?thesis by simp
qed

lemma expo_small: assumes "0 < x" "x < 2 powr (- 1022)" shows "expo x = - 1022"
proof -
  have "log 2 x < log 2 (2 powr (- 1022))"
    using assms by (subst log_less_cancel_iff) simp_all
  then have "log 2 x < - 1022" by simp
  then have "\<lfloor>log 2 x\<rfloor> < - 1022" by (simp add: floor_less_iff)
  then show ?thesis using assms by (simp add: expo_def)
qed

lemma ulp_le: assumes "0 < x" shows "ulp x \<le> x / 2 ^ 52 + 2 powr (- 1074)"
proof (cases "2 powr (- 1022) \<le> x")
  case True
  have "ulp x = 2 powr (of_int (expo x)) * 2 powr (- 52)"
    unfolding ulp_def by (simp add: powr_diff powr_minus field_simps)
  also have "\<dots> \<le> x * 2 powr (- 52)"
    using powr_expo_le[OF True] by (intro mult_right_mono) simp_all
  also have "2 powr (- 52) = (1 / 2 ^ 52 :: real)"
    by (simp add: powr_minus field_simps)
  finally have "ulp x \<le> x / 2 ^ 52" by simp
  then show ?thesis by (smt (verit) powr_gt_zero)
next
  case False
  then have "expo x = - 1022" using assms by (intro expo_small) simp_all
  then have "ulp x = 2 powr (- 1074)" by (simp add: ulp_def)
  with assms show ?thesis by simp
qed

lemma ulp_minus [simp]: "ulp (- x) = ulp x"
  by (simp add: ulp_def expo_def)

lemma rd_minus: "rd (- x) = - rd x"
  by (simp add: rd_def)

lemma rd_zero [simp]: "rd 0 = 0"
  by (simp add: rd_def)

lemma rd_pos: "0 < x \<Longrightarrow> rd x = of_int (rne (x / ulp x)) * ulp x"
  by (simp add: rd_def)

lemma rd_nonneg: assumes "0 \<le> x" shows "0 \<le> rd x"
proof (cases "x = 0")
  case False
  with assms have "0 < x" by simp
  then have "0 \<le> x / ulp x" using ulp_pos[of x] by simp
  then have "0 \<le> rne (x / ulp x)" by (rule rne_nonneg)
  with \<open>0 < x\<close> ulp_pos[of x] show ?thesis by (simp add: rd_pos)
qed simp

lemma rd_nonpos: "x \<le> 0 \<Longrightarrow> rd x \<le> 0"
  using rd_nonneg[of "- x"] by (simp add: rd_minus)

lemma abs_scale: assumes "0 < (u::real)" shows "\<bar>a - x / u\<bar> * u = \<bar>a * u - x\<bar>"
proof -
  have "\<bar>a - x / u\<bar> * u = \<bar>(a - x / u) * u\<bar>"
    using assms by (simp only: abs_mult abs_of_pos)
  also have "(a - x / u) * u = a * u - x" using assms by (simp add: field_simps)
  finally show ?thesis .
qed

lemma rd_err_ulp_pos: assumes "0 < x" shows "\<bar>rd x - x\<bar> \<le> ulp x / 2"
proof -
  have "\<bar>of_int (rne (x / ulp x)) - x / ulp x\<bar> \<le> 1/2" by (rule rne_err)
  then have "\<bar>of_int (rne (x / ulp x)) - x / ulp x\<bar> * ulp x \<le> 1/2 * ulp x"
    using ulp_pos[of x] by (intro mult_right_mono) simp_all
  then have "\<bar>of_int (rne (x / ulp x)) * ulp x - x\<bar> \<le> 1/2 * ulp x"
    by (simp only: abs_scale[OF ulp_pos])
  then show ?thesis using assms by (simp add: rd_pos)
qed

lemma rd_err_ulp: "\<bar>rd x - x\<bar> \<le> ulp x / 2"
proof (cases "0 < x")
  case True
  then show ?thesis by (rule rd_err_ulp_pos)
next
  case False
  show ?thesis
  proof (cases "x = 0")
    case True
    then show ?thesis using ulp_pos[of 0] by simp
  next
    case nz: False
    with False have "0 < - x" by simp
    from rd_err_ulp_pos[OF this] have "\<bar>- rd x + x\<bar> \<le> ulp x / 2"
      by (simp add: rd_minus)
    then show ?thesis by linarith
  qed
qed

lemma rd_err: "\<bar>rd x - x\<bar> \<le> \<bar>x\<bar> / 2 ^ 53 + 2 powr (- 1075)"
proof (cases "x = 0")
  case True
  then show ?thesis by simp
next
  case False
  then have "0 < \<bar>x\<bar>" by simp
  from ulp_le[OF this] have "ulp x \<le> \<bar>x\<bar> / 2 ^ 52 + 2 powr (- 1074)"
    by (simp add: ulp_def expo_def)
  moreover have "2 powr (- 1074) = 2 * 2 powr (- 1075 :: real)"
    using powr_add[of "2::real" 1 "- 1075"] by simp
  ultimately show ?thesis using rd_err_ulp[of x] by simp
qed

lemma rd_exact:
  assumes "x / ulp x = of_int n"
  shows "rd x = x"
proof -
  have eq: "of_int n * ulp x = x" using assms ulp_pos[of x] by (simp add: field_simps)
  show ?thesis
  proof (cases "0 < x")
    case True
    with assms eq show ?thesis by (simp add: rd_pos)
  next
    case False
    show ?thesis
    proof (cases "x = 0")
      case nz: False
      from assms have "- x / ulp x = of_int (- n)" by simp
      then have "rne (- x / ulp x) = - n" by (simp only: rne_of_int)
      with False nz eq show ?thesis by (simp add: rd_def)
    qed simp
  qed
qed

lemma rd_magnitude:
  assumes "rd x \<noteq> 0"
  shows "2 powr (- 1074) \<le> \<bar>rd x\<bar>"
proof -
  have key: "2 powr (- 1074) \<le> \<bar>rd y\<bar>" if "0 < y" "rd y \<noteq> 0" for y
  proof -
    from that have "rne (y / ulp y) \<noteq> 0" by (auto simp: rd_pos)
    moreover have "0 \<le> rne (y / ulp y)"
      using that ulp_pos[of y] by (intro rne_nonneg) simp
    ultimately have "1 \<le> rne (y / ulp y)" by linarith
    then have "(1::real) \<le> of_int (rne (y / ulp y))" by linarith
    then have "1 * ulp y \<le> of_int (rne (y / ulp y)) * ulp y"
      using ulp_pos[of y] by (intro mult_right_mono) simp_all
    with ulp_ge[of y] that show ?thesis by (simp add: rd_pos)
  qed
  show ?thesis
  proof (cases "0 < x")
    case True
    with assms show ?thesis by (intro key)
  next
    case False
    with assms have "0 < - x" by (cases "x = 0") simp_all
    moreover from assms have "rd (- x) \<noteq> 0" by (simp add: rd_minus)
    ultimately have "2 powr (- 1074) \<le> \<bar>rd (- x)\<bar>" by (rule key)
    then show ?thesis by (simp add: rd_minus)
  qed
qed

lemma expo_mono: assumes "0 < x" "x \<le> y" shows "expo x \<le> expo y"
proof -
  have "log 2 x \<le> log 2 y" using assms by simp
  then have "\<lfloor>log 2 x\<rfloor> \<le> \<lfloor>log 2 y\<rfloor>" by (rule floor_mono)
  with assms show ?thesis by (simp add: expo_def)
qed

lemma ulp_scale:
  "2 powr 53 * ulp x = 2 powr (of_int (expo x) + 1)" "2 powr 52 * ulp x = 2 powr (of_int (expo x))"
proof -
  have "2 powr 53 * ulp x = 2 powr (53 + (of_int (expo x) - 52))"
    unfolding ulp_def by (simp only: powr_add)
  then show "2 powr 53 * ulp x = 2 powr (of_int (expo x) + 1)" by (simp add: algebra_simps)
  have "2 powr 52 * ulp x = 2 powr (52 + (of_int (expo x) - 52))"
    unfolding ulp_def by (simp only: powr_add)
  then show "2 powr 52 * ulp x = 2 powr (of_int (expo x))" by (simp add: algebra_simps)
qed

lemma rd_le_next_binade: assumes "0 < x" shows "rd x \<le> 2 powr (of_int (expo x) + 1)"
proof -
  define N :: real where "N = 2 powr 53"
  have N_int: "N = of_int (2 ^ 53)" by (simp add: N_def)
  have Nu: "N * ulp x = 2 powr (of_int (expo x) + 1)" unfolding N_def by (rule ulp_scale)
  have "x \<le> N * ulp x" using less_powr_expo[OF assms] Nu by simp
  then have "x / ulp x \<le> N" using ulp_pos[of x] by (simp add: field_simps)
  then have "rne (x / ulp x) \<le> rne N" by (rule rne_mono)
  then have "rne (x / ulp x) \<le> 2 ^ 53" unfolding N_int by (simp only: rne_of_int)
  then have "(of_int (rne (x / ulp x)) :: real) \<le> of_int (2 ^ 53)" by (simp only: of_int_le_iff)
  then have "of_int (rne (x / ulp x)) \<le> N" by (simp only: N_int)
  then have "of_int (rne (x / ulp x)) * ulp x \<le> N * ulp x"
    using ulp_pos[of x] by (intro mult_right_mono) simp_all
  then show ?thesis using assms by (simp only: rd_pos Nu)
qed

lemma rd_ge_binade:
  assumes "0 < x" "2 powr (of_int (expo x)) \<le> x"
  shows "2 powr (of_int (expo x)) \<le> rd x"
proof -
  define N :: real where "N = 2 powr 52"
  have N_int: "N = of_int (2 ^ 52)" by (simp add: N_def)
  have Nu: "N * ulp x = 2 powr (of_int (expo x))" unfolding N_def by (rule ulp_scale)
  have "N * ulp x \<le> x" using assms(2) Nu by simp
  then have "N \<le> x / ulp x" using ulp_pos[of x] by (simp add: field_simps)
  then have "rne N \<le> rne (x / ulp x)" by (rule rne_mono)
  then have "2 ^ 52 \<le> rne (x / ulp x)" unfolding N_int by (simp only: rne_of_int)
  then have "(of_int (2 ^ 52) :: real) \<le> of_int (rne (x / ulp x))" by (simp only: of_int_le_iff)
  then have "N \<le> of_int (rne (x / ulp x))" by (simp only: N_int)
  then have "N * ulp x \<le> of_int (rne (x / ulp x)) * ulp x"
    using ulp_pos[of x] by (intro mult_right_mono) simp_all
  then show ?thesis using assms by (simp only: rd_pos Nu)
qed

lemma powr_expo_le': assumes "0 < x" "- 1022 < expo x" shows "2 powr (of_int (expo x)) \<le> x"
proof -
  from assms have "expo x = \<lfloor>log 2 x\<rfloor>" by (simp add: expo_def max_def split: if_splits)
  then have "of_int (expo x) \<le> log 2 x" by simp
  then have "2 powr (of_int (expo x)) \<le> 2 powr (log 2 x)" by (intro powr_mono) simp_all
  with assms show ?thesis by simp
qed

lemma rd_mono_pos: assumes "0 < x" "x \<le> y" shows "rd x \<le> rd y"
proof -
  have ypos: "0 < y" using assms by simp
  have le: "expo x \<le> expo y" using assms by (rule expo_mono)
  show ?thesis
  proof (cases "expo x = expo y")
    case True
    then have u: "ulp x = ulp y" by (simp add: ulp_def)
    have "x / ulp y \<le> y / ulp y" using assms ulp_pos[of y] by (simp add: divide_right_mono)
    then have "rne (x / ulp y) \<le> rne (y / ulp y)" by (rule rne_mono)
    then have "(of_int (rne (x / ulp y)) :: real) \<le> of_int (rne (y / ulp y))" by simp
    then have "of_int (rne (x / ulp y)) * ulp y \<le> of_int (rne (y / ulp y)) * ulp y"
      using ulp_pos[of y] by (intro mult_right_mono) simp_all
    with assms ypos u show ?thesis by (simp add: rd_pos)
  next
    case False
    with le have lt: "expo x < expo y" by simp
    then have "of_int (expo x) + 1 \<le> (of_int (expo y) :: real)" by linarith
    then have "2 powr (of_int (expo x) + 1) \<le> (2::real) powr (of_int (expo y))"
      by (intro powr_mono) simp_all
    moreover have "- 1022 < expo y" using lt expo_ge[of x] by linarith
    then have "2 powr (of_int (expo y)) \<le> rd y"
      using ypos by (intro rd_ge_binade powr_expo_le') simp_all
    ultimately show ?thesis using rd_le_next_binade[OF assms(1)] by linarith
  qed
qed

lemma rd_mono: assumes "x \<le> y" shows "rd x \<le> rd y"
proof -
  consider "0 < x" | "x \<le> 0" "0 \<le> y" | "y < 0" by linarith
  then show ?thesis
  proof cases
    case 1
    then show ?thesis using assms by (rule rd_mono_pos)
  next
    case 2
    then show ?thesis using rd_nonpos[of x] rd_nonneg[of y] by linarith
  next
    case 3
    then have "0 < - y" "- y \<le> - x" using assms by simp_all
    from rd_mono_pos[OF this] show ?thesis by (simp add: rd_minus)
  qed
qed

lemma tiny_le: "2 powr (- 1075) \<le> (1 / 2 ^ 60 :: real)"
proof -
  have "(2::real) powr (- 1075) \<le> 2 powr (- 60)" by (intro powr_mono) simp_all
  also have "\<dots> = 1 / 2 ^ 60" by (simp add: powr_minus field_simps)
  finally show ?thesis .
qed

lemma rd_err_small:
  assumes "\<bar>x\<bar> \<le> 4096"
  shows "\<bar>rd x - x\<bar> \<le> 1 / 2 ^ 41 + 1 / 2 ^ 60"
proof -
  have "\<bar>x\<bar> / 2 ^ 53 \<le> 4096 / 2 ^ 53" using assms by (simp add: divide_right_mono)
  then show ?thesis using rd_err[of x] tiny_le by simp
qed

lemma b64_small:
  assumes "\<bar>x\<bar> \<le> 4096"
  shows "b64 x = Fin (rd x)"
proof -
  have "\<bar>rd x - x\<bar> \<le> 1" using rd_err_small[OF assms] by simp
  with assms have "\<bar>rd x\<bar> \<le> 4097" by linarith
  then have "\<not> 2 ^ 1024 \<le> rd x" "\<not> rd x \<le> - (2 ^ 1024)" by simp_all
  then show ?thesis by (simp add: b64_def Let_def)
qed

lemma py_max2_Fin [simp]: "py_max2 (Fin a) (Fin b) = Fin (max a b)"
  by (simp add: py_max2_def max_def)

lemma b64_Fin: assumes "b64 x = Fin y" shows "y = rd x" and "\<bar>y\<bar> < 2 ^ 1024"
  using assms by (auto simp: b64_def Let_def split: if_splits)

lemma b64_Fin_zero [simp]: "b64 0 = Fin 0"
  by (simp add: b64_def)

lemma expo_le_1023: assumes "x \<noteq> 0" "\<bar>x\<bar> < 2 ^ 1024" shows "expo x \<le> 1023"
proof -
  have "log 2 \<bar>x\<bar> < log 2 (2 ^ 1024)"
    using assms by (subst log_less_cancel_iff) simp_all
  also have "log 2 (2 ^ 1024 :: real) = 1024" using log_pow_cancel[of 2 1024] by simp
  finally have "\<lfloor>log 2 \<bar>x\<bar>\<rfloor> < 1024" by (simp add: floor_less_iff)
  then show ?thesis by (simp add: expo_def)
qed

lemma b64_below_threshold:
  assumes "\<bar>x\<bar> < 2 ^ 1024 - 2 ^ 970"
  shows "b64 x = Fin (rd x)"
proof (cases "x = 0")
  case True
  then show ?thesis by simp
next
  case False
  have "\<bar>x\<bar> < 2 ^ 1024" using assms by simp
  with False have "of_int (expo x) - 52 \<le> (971 :: real)" using expo_le_1023[of x] by linarith
  then have "ulp x \<le> 2 powr 971" unfolding ulp_def by (intro powr_mono) simp_all
  also have "(2 :: real) powr 971 = 2 * 2 ^ 970" by simp
  finally have "ulp x / 2 \<le> 2 ^ 970" by simp
  with rd_err_ulp[of x] have "\<bar>rd x - x\<bar> \<le> 2 ^ 970" by linarith
  with assms have "\<bar>rd x\<bar> < 2 ^ 1024" by linarith
  then have "\<not> 2 ^ 1024 \<le> rd x" "\<not> rd x \<le> - (2 ^ 1024)" by linarith+
  then show ?thesis by (simp add: b64_def Let_def)
qed

lemma b64_overflow:
  assumes "2 ^ 1024 \<le> x"
  shows "b64 x = PInf"
proof -
  have pos: "0 < x" using assms by (smt (verit) zero_less_power zero_less_numeral)
  have "log 2 (2 ^ 1024) \<le> log 2 x" using assms pos by (intro log_mono) simp_all
  moreover have "log 2 (2 ^ 1024 :: real) = 1024" using log_pow_cancel[of 2 1024] by simp
  ultimately have "1024 \<le> \<lfloor>log 2 x\<rfloor>" by (simp add: le_floor_iff)
  then have e: "1024 \<le> expo x" using pos by (simp add: expo_def)
  then have "- 1022 < expo x" by linarith
  then have "2 powr (of_int (expo x)) \<le> rd x"
    using pos by (intro rd_ge_binade powr_expo_le') simp_all
  moreover have "(2::real) powr 1024 \<le> 2 powr (of_int (expo x))"
    using e by (intro powr_mono) simp_all
  moreover have "(2::real) powr 1024 = 2 ^ 1024" by simp
  ultimately have "2 ^ 1024 \<le> rd x" by linarith
  then show ?thesis by (simp add: b64_def Let_def)
qed

lemma expo_eq:
  assumes "2 powr (of_int e) \<le> x" "x < 2 powr (of_int e + 1)" "- 1022 \<le> e"
  shows "expo x = e"
proof -
  have pos: "0 < x" using assms(1) by (smt (verit) powr_gt_zero)
  have "\<lfloor>log 2 x\<rfloor> = e"
    using assms(1,2) pos by (subst floor_log_eq_powr_iff) simp_all
  with assms(3) pos show ?thesis by (simp add: expo_def)
qed

lemma rd_exact_in:
  assumes "2 powr (of_int e) \<le> x" "x < 2 powr (of_int e + 1)" "- 1022 \<le> e"
    and "x * 2 powr (52 - of_int e) = of_int n"
  shows "rd x = x"
proof -
  have u: "ulp x = 2 powr (of_int e - 52)" by (simp add: ulp_def expo_eq[OF assms(1-3)])
  have "(2::real) powr (- (of_int e - 52)) = 1 / 2 powr (of_int e - 52)"
    by (rule powr_minus_divide)
  then have "(2::real) powr (52 - of_int e) = 1 / ulp x" by (simp add: u)
  then have "x / ulp x = x * 2 powr (52 - of_int e)" by simp
  with assms(4) show ?thesis by (intro rd_exact[of x n]) simp
qed

lemma rd_1 [simp]: "rd 1 = 1"
  by (rule rd_exact_in[of 0 1 "2 ^ 52"]) simp_all

lemma rd_2 [simp]: "rd 2 = 2"
  by (rule rd_exact_in[of 1 2 "2 ^ 52"]) simp_all

lemma rd_3 [simp]: "rd 3 = 3"
  by (rule rd_exact_in[of 1 3 "3 * 2 ^ 51"]) simp_all

lemma rd_4 [simp]: "rd 4 = 4"
  by (rule rd_exact_in[of 2 4 "2 ^ 52"]) simp_all



subsection \<open>The zoom level\<close>

lemma ln2_pos: "0 < ln (2::real)"
  by (simp add: ln_gt_zero)


lemma quotient_close:
  fixes a c A C e :: real
  assumes c: "0 < c" and e: "0 \<le> e" "e \<le> 1 / 3"
    and A: "\<bar>A - a\<bar> \<le> \<bar>a\<bar> * e" and C: "\<bar>C - c\<bar> \<le> c * e"
  shows "0 < C" and "\<bar>A / C - a / c\<bar> \<le> 3 * e * \<bar>a / c\<bar>"
proof -
  have "c * e \<le> c * (1 / 3)" using c e by (intro mult_left_mono) simp_all
  with C have Clow: "2 / 3 * c \<le> C" by linarith
  with c show Cpos: "0 < C" by linarith
  have "A * c - a * C = (A - a) * c - a * (C - c)" by (simp add: algebra_simps)
  then have "\<bar>A * c - a * C\<bar> \<le> \<bar>(A - a) * c\<bar> + \<bar>a * (C - c)\<bar>" by linarith
  also have "\<bar>(A - a) * c\<bar> = \<bar>A - a\<bar> * c" using c by (simp add: abs_mult)
  also have "\<bar>a * (C - c)\<bar> = \<bar>a\<bar> * \<bar>C - c\<bar>" by (simp add: abs_mult)
  finally have "\<bar>A * c - a * C\<bar> \<le> \<bar>A - a\<bar> * c + \<bar>a\<bar> * \<bar>C - c\<bar>" .
  moreover have "\<bar>A - a\<bar> * c \<le> \<bar>a\<bar> * e * c" using A c by (intro mult_right_mono) simp_all
  moreover have "\<bar>a\<bar> * \<bar>C - c\<bar> \<le> \<bar>a\<bar> * (c * e)" using C by (intro mult_left_mono) simp_all
  ultimately have num: "\<bar>A * c - a * C\<bar> \<le> 2 * \<bar>a\<bar> * e * c" by (simp add: algebra_simps)
  have "A / C - a / c = (A * c - a * C) / (C * c)" using c Cpos by (simp add: field_simps)
  then have "\<bar>A / C - a / c\<bar> = \<bar>A * c - a * C\<bar> / (C * c)"
    using c Cpos by (simp add: abs_mult)
  also have "\<dots> \<le> (2 * \<bar>a\<bar> * e * c) / (C * c)"
    using num c Cpos by (intro divide_right_mono) simp_all
  also have "\<dots> = 2 * \<bar>a\<bar> * e / C" using c by simp
  also have "\<dots> \<le> 2 * \<bar>a\<bar> * e / (2 / 3 * c)"
    using Clow c e by (intro divide_left_mono) (simp_all add: mult_pos_pos)
  also have "\<dots> = 3 * e * (\<bar>a\<bar> / c)" using c by simp
  also have "\<bar>a\<bar> / c = \<bar>a / c\<bar>" using c by simp
  finally show "\<bar>A / C - a / c\<bar> \<le> 3 * e * \<bar>a / c\<bar>" .
qed

lemma np_log_quotient:
  assumes "np_log_accurate lg" "0 < m"
  shows "0 < lg 2" and "\<bar>lg m / lg 2 - log 2 m\<bar> \<le> 3 / 2 ^ 50 * \<bar>log 2 m\<bar>"
proof -
  have A: "\<bar>lg m - ln m\<bar> \<le> \<bar>ln m\<bar> * (1 / 2 ^ 50)"
    using assms by (simp add: np_log_accurate_def)
  have "\<bar>lg 2 - ln 2\<bar> \<le> \<bar>ln (2::real)\<bar> / 2 ^ 50"
    using assms(1) unfolding np_log_accurate_def by (metis zero_less_numeral)
  then have C: "\<bar>lg 2 - ln 2\<bar> \<le> ln 2 * (1 / 2 ^ 50)"
    using ln2_pos by simp
  have e: "(0::real) \<le> 1 / 2 ^ 50" "(1 / 2 ^ 50 :: real) \<le> 1 / 3" by simp_all
  from quotient_close[OF ln2_pos e A C]
  show "0 < lg 2" and "\<bar>lg m / lg 2 - log 2 m\<bar> \<le> 3 / 2 ^ 50 * \<bar>log 2 m\<bar>"
    by (simp_all add: log_def)
qed

lemma log2_range:
  assumes "2 powr (- 1074) \<le> m" "m < 2 ^ 1024"
  shows "- 1074 \<le> log 2 m" and "log 2 m < 1024"
proof -
  have pos: "0 < m" using assms(1) by (smt (verit) powr_gt_zero)
  have "log 2 (2 powr (- 1074)) \<le> log 2 m"
    using assms(1) pos by (intro log_mono) simp_all
  then show "- 1074 \<le> log 2 m" by simp
  have "log 2 m < log 2 (2 ^ 1024)"
    using assms(2) pos by (subst log_less_cancel_iff) simp_all
  also have "log 2 (2 ^ 1024 :: real) = 1024"
    using log_pow_cancel[of 2 1024] by simp
  finally show "log 2 m < 1024" .
qed

text \<open>The value of the float expression of line 52.\<close>

lemma zoom_value:
  assumes lg: "np_log_accurate lg" and m: "2 powr (- 1074) \<le> m" "m < 2 ^ 1024"
  shows "fl_sub (Fin 12) (fl_div (np_log lg (Fin m)) (np_log lg (Fin 2)))
           = Fin (rd (12 - rd (lg m / lg 2)))"
    and "\<bar>rd (12 - rd (lg m / lg 2)) - (12 - log 2 m)\<bar> \<le> 1 / 2 ^ 37"
proof -
  have pos: "0 < m" using m(1) by (smt (verit) powr_gt_zero)
  note q = np_log_quotient[OF lg pos]
  note l = log2_range[OF m]
  have labs: "\<bar>log 2 m\<bar> \<le> 1074" using l by linarith
  have "3 / 2 ^ 50 * \<bar>log 2 m\<bar> \<le> 3 / 2 ^ 50 * 1074"
    using labs by (intro mult_left_mono) simp_all
  with q(2) have r: "\<bar>lg m / lg 2 - log 2 m\<bar> \<le> 3222 / 2 ^ 50" by simp
  have n: "(3222 / 2 ^ 50 :: real) \<le> 1" "(1 / 2 ^ 41 + 1 / 2 ^ 60 :: real) \<le> 1" by simp_all
  have rabs: "\<bar>lg m / lg 2\<bar> \<le> 4096" using r labs n by linarith
  note e1 = rd_err_small[OF rabs]
  then have sabs: "\<bar>12 - rd (lg m / lg 2)\<bar> \<le> 4096" using r labs n by linarith
  note e2 = rd_err_small[OF sabs]
  from q(1) pos show "fl_sub (Fin 12) (fl_div (np_log lg (Fin m)) (np_log lg (Fin 2)))
           = Fin (rd (12 - rd (lg m / lg 2)))"
    by (simp add: b64_small[OF rabs] b64_small[OF sabs])
  define d0 d1 bound :: real where
    "d0 = 3222 / 2 ^ 50" and "d1 = 1 / 2 ^ 41 + 1 / 2 ^ 60" and "bound = 1 / 2 ^ 37"
  have "d0 + 2 * d1 \<le> bound" by (simp add: d0_def d1_def bound_def)
  with r e1 e2 have "\<bar>rd (12 - rd (lg m / lg 2)) - (12 - log 2 m)\<bar> \<le> bound"
    unfolding d0_def[symmetric] d1_def[symmetric] by linarith
  then show "\<bar>rd (12 - rd (lg m / lg 2)) - (12 - log 2 m)\<bar> \<le> 1 / 2 ^ 37"
    by (simp only: bound_def)
qed

text \<open>Truncation and floor differ only below zero, where the clamp returns 0 for both.\<close>

lemma clamp_trunc:
  "max 0 (min (if 0 \<le> v then \<lfloor>v\<rfloor> else \<lceil>v\<rceil>) 19) = max 0 (min 19 \<lfloor>v :: real\<rfloor>)"
proof (cases "0 \<le> v")
  case True
  then show ?thesis by (simp add: min.commute)
next
  case False
  then have "\<lfloor>v\<rfloor> \<le> 0" "\<lceil>v\<rceil> \<le> 0" by (simp_all add: floor_le_iff ceiling_le_iff)
  with False show ?thesis by simp
qed

text \<open>The level on computed spans that are finite and not negative.\<close>

lemma estimate_zoom_computed:
  assumes lg: "np_log_accurate lg"
    and lon: "fl_sub (Fin max_lon) (Fin min_lon) = Fin lon_span"
    and lat: "fl_sub (Fin max_lat) (Fin min_lat) = Fin lat_span"
    and nn: "0 \<le> lon_span" "0 \<le> lat_span"
  shows "estimate_zoom lg min_lon max_lon min_lat max_lat =
           Inr (if lon_span = 0 \<and> lat_span = 0 then 19
                else max 0 (min 19 \<lfloor>rd (12 - rd (lg (max lon_span lat_span) / lg 2))\<rfloor>))"
    and "\<not> (lon_span = 0 \<and> lat_span = 0) \<Longrightarrow>
           2 powr (- 1074) \<le> max lon_span lat_span \<and> max lon_span lat_span < 2 ^ 1024"
proof -
  from lon have blon: "b64 (max_lon - min_lon) = Fin lon_span" by simp
  note rlon = b64_Fin[OF blon]
  from lat have blat: "b64 (max_lat - min_lat) = Fin lat_span" by simp
  note rlat = b64_Fin[OF blat]
  show m: "2 powr (- 1074) \<le> max lon_span lat_span \<and> max lon_span lat_span < 2 ^ 1024"
    if nz: "\<not> (lon_span = 0 \<and> lat_span = 0)"
  proof -
    have "2 powr (- 1074) \<le> \<bar>lon_span\<bar> \<or> 2 powr (- 1074) \<le> \<bar>lat_span\<bar>"
      using nz rd_magnitude[of "max_lon - min_lon"] rd_magnitude[of "max_lat - min_lat"]
      unfolding rlon(1) rlat(1) by blast
    with nn rlon(2) rlat(2) show ?thesis by (auto simp: max_def)
  qed
  show "estimate_zoom lg min_lon max_lon min_lat max_lat =
           Inr (if lon_span = 0 \<and> lat_span = 0 then 19
                else max 0 (min 19 \<lfloor>rd (12 - rd (lg (max lon_span lat_span) / lg 2))\<rfloor>))"
  proof (cases "lon_span = 0 \<and> lat_span = 0")
    case True
    then show ?thesis by (simp add: estimate_zoom_def blon blat)
  next
    case False
    from m[OF False] zoom_value(1)[OF lg, of "max lon_span lat_span"]
    have "fl_sub (Fin 12) (fl_div (np_log lg (Fin (max lon_span lat_span))) (np_log lg (Fin 2)))
           = Fin (rd (12 - rd (lg (max lon_span lat_span) / lg 2)))" by blast
    with False show ?thesis
      unfolding estimate_zoom_def lon lat Let_def
      by (auto simp add: clamp_trunc simp del: fl_sub.simps fl_div.simps np_log.simps)
  qed
qed

text \<open>The same on the exact differences, below the overflow threshold.\<close>

lemma fl_sub_exact_span:
  assumes "0 \<le> a - b" "a - b < 2 ^ 1024 - 2 ^ 970"
  shows "fl_sub (Fin a) (Fin b) = Fin (rd (a - b))" and "0 \<le> rd (a - b)"
  using assms by (simp_all add: b64_below_threshold rd_nonneg)

lemma rd_max: "rd (max x y) = max (rd x) (rd y)"
  using rd_mono[of x y] rd_mono[of y x] by (auto simp: max_def)

lemma np_log_accurate_ln: "np_log_accurate ln"
  by (simp add: np_log_accurate_def)

lemma estimate_zoom_in_range:
  "estimate_zoom lg min_lon max_lon min_lat max_lat = Inr zoom \<Longrightarrow> 0 \<le> zoom \<and> zoom \<le> 19"
  by (auto simp: estimate_zoom_def Let_def split: if_splits sum.splits)

lemma estimate_zoom_exact_spans:
  assumes lg: "np_log_accurate lg"
    and lon: "0 \<le> max_lon - min_lon" "max_lon - min_lon < 2 ^ 1024 - 2 ^ 970"
    and lat: "0 \<le> max_lat - min_lat" "max_lat - min_lat < 2 ^ 1024 - 2 ^ 970"
  shows "estimate_zoom lg min_lon max_lon min_lat max_lat =
           Inr (if rd (max (max_lon - min_lon) (max_lat - min_lat)) = 0 then 19
                else max 0 (min 19 \<lfloor>rd (12 - rd (lg (rd (max (max_lon - min_lon)
                       (max_lat - min_lat))) / lg 2))\<rfloor>))"
proof -
  note a = fl_sub_exact_span[OF lon] and b = fl_sub_exact_span[OF lat]
  have z: "rd (max (max_lon - min_lon) (max_lat - min_lat)) = 0 \<longleftrightarrow>
           rd (max_lon - min_lon) = 0 \<and> rd (max_lat - min_lat) = 0"
    unfolding rd_max using a(2) b(2) by (auto simp: max_def)
  show ?thesis
    unfolding estimate_zoom_computed(1)[OF lg a(1) b(1) a(2) b(2)] z
    by (simp only: rd_max)
qed


text \<open>Overflow of a span.\<close>

lemma estimate_zoom_overflow:
  assumes "2 ^ 1024 \<le> max_lon - min_lon"
  shows "estimate_zoom lg min_lon max_lon min_lat max_lat = Inl OverflowError"
proof -
  have lon: "fl_sub (Fin max_lon) (Fin min_lon) = PInf"
    using b64_overflow[OF assms] by simp
  have m: "py_max2 PInf y = PInf" for y by (cases y) (simp_all add: py_max2_def)
  have "fl_div PInf (np_log lg (Fin 2)) = PInf \<or> fl_div PInf (np_log lg (Fin 2)) = NInf"
    by simp
  then have "py_int (fl_sub (Fin 12) (fl_div PInf (np_log lg (Fin 2)))) = Inl OverflowError"
    by auto
  then show ?thesis
    unfolding estimate_zoom_def lon Let_def m by simp
qed

lemma log2_7: "log 2 7 \<le> (29 / 10 :: real)"
proof -
  have "10 * log 2 (7::real) = log 2 (7 ^ 10)" using log_nat_power[of 7 2 10] by simp
  also have "\<dots> \<le> log 2 (2 ^ 29)" by (intro log_mono) simp_all
  also have "log 2 (2 ^ 29 :: real) = 29" using log_pow_cancel[of 2 29] by simp
  finally show ?thesis by simp
qed


lemma estimate_zoom_in_box:
  assumes lg: "np_log_accurate lg"
    and lon: "0 \<le> max_lon - min_lon" "max_lon - min_lon \<le> 69 / 10"
    and lat: "0 \<le> max_lat - min_lat" "max_lat - min_lat \<le> 69 / 10"
  shows "\<exists>zoom. estimate_zoom lg min_lon max_lon min_lat max_lat = Inr zoom \<and> 9 \<le> zoom"
proof -
  let ?M = "max (max_lon - min_lon) (max_lat - min_lat)"
  let ?m = "rd ?M"
  let ?v = "rd (12 - rd (lg ?m / lg 2))"
  have big: "(69 / 10 :: real) < 2 ^ 1024 - 2 ^ 970" by simp
  have ez: "estimate_zoom lg min_lon max_lon min_lat max_lat =
      Inr (if ?m = 0 then 19 else max 0 (min 19 \<lfloor>?v\<rfloor>))"
    using lon lat big by (intro estimate_zoom_exact_spans[OF lg]) linarith+
  show ?thesis
  proof (cases "?m = 0")
    case True
    with ez show ?thesis by simp
  next
    case False
    have M: "0 \<le> ?M" "?M \<le> 69 / 10" using lon lat by (auto simp: max_def)
    then have "\<bar>?M\<bar> \<le> 4096" by linarith
    from rd_err_small[OF this] have "\<bar>?m - ?M\<bar> \<le> 1 / 10" by simp
    with M have m7: "?m \<le> 7" by linarith
    have mpos: "0 < ?m" using rd_nonneg[OF M(1)] False by simp
    have mlow: "2 powr (- 1074) \<le> ?m" using rd_magnitude[OF False] mpos by simp
    have "(7::real) < 2 ^ 1024" by simp
    with m7 have mhigh: "?m < 2 ^ 1024" by linarith
    have "log 2 ?m \<le> log 2 7" using mpos m7 by (intro log_mono) simp_all
    with log2_7 have l: "log 2 ?m \<le> 29 / 10" by linarith
    from zoom_value(2)[OF lg mlow mhigh] have "\<bar>?v - (12 - log 2 ?m)\<bar> \<le> 1 / 10" by simp
    with l have "9 \<le> ?v" by linarith
    then have "9 \<le> \<lfloor>?v\<rfloor>" by (simp add: le_floor_iff)
    with ez False show ?thesis by simp
  qed
qed




text \<open>A span that overflows, and the level otherwise.\<close>

lemma b64_cases: "b64 x = Fin (rd x) \<or> b64 x = PInf \<or> b64 x = NInf"
  by (simp add: b64_def Let_def)




subsection \<open>The reading loop\<close>

lemma read_rows_step:
  assumes "float_field pf r ''Longitude'' = Inr lon" and "float_field pf r ''Latitude'' = Inr lat"
  shows "read_rows pf i (r # rows) longitudes latitudes out =
     (if LON_MIN \<le> lon \<and> lon \<le> LON_MAX \<and> LAT_MIN \<le> lat \<and> lat \<le> LAT_MAX
      then read_rows pf (i + 1) rows (longitudes @ [lon]) (latitudes @ [lat])
             (if i < 5 then out @ [PrintRow i lon lat] else out)
      else read_rows pf (i + 1) rows longitudes latitudes
             ((if i < 5 then out @ [PrintRow i lon lat] else out) @ [PrintOutside lon lat]))"
  by (simp add: assms Let_def)

lemma read_rows_raise:
  assumes "float_field pf r ''Longitude'' = Inl e \<or>
           (\<exists>lon. float_field pf r ''Longitude'' = Inr lon) \<and> float_field pf r ''Latitude'' = Inl e"
  shows "read_rows pf i (r # rows) longitudes latitudes out = (out, Inl e)"
  using assms by auto

lemma float_field_cases:
  obtains (lon_raises) e where "float_field pf r ''Longitude'' = Inl e"
  | (lat_raises) lon e where "float_field pf r ''Longitude'' = Inr lon"
      "float_field pf r ''Latitude'' = Inl e"
  | (parsed) lon lat where "float_field pf r ''Longitude'' = Inr lon"
      "float_field pf r ''Latitude'' = Inr lat"
  by (cases "float_field pf r ''Longitude''"; cases "float_field pf r ''Latitude''") auto

lemma read_rows_events:
  "list_all is_read_event out \<Longrightarrow>
   list_all is_read_event (fst (read_rows pf i rows longitudes latitudes out))"
proof (induction rows arbitrary: i longitudes latitudes out)
  case Nil
  then show ?case by simp
next
  case (Cons r rows)
  show ?case
  proof (cases pf r rule: float_field_cases)
    case (lon_raises e)
    then show ?thesis using Cons.prems by (simp add: read_rows_raise)
  next
    case (lat_raises lon e)
    then show ?thesis using Cons.prems by (simp add: read_rows_raise)
  next
    case (parsed lon lat)
    define out1 where "out1 = (if i < 5 then out @ [PrintRow i lon lat] else out)"
    from Cons.prems have o1: "list_all is_read_event out1" by (simp add: out1_def)
    then have o2: "list_all is_read_event (out1 @ [PrintOutside lon lat])" by simp
    show ?thesis
      unfolding read_rows_step[OF parsed] out1_def[symmetric]
      using Cons.IH[OF o1] Cons.IH[OF o2] by simp
  qed
qed

lemma read_rows_lengths:
  "snd (read_rows pf i rows longitudes latitudes out) = Inr (lons, lats) \<Longrightarrow>
   length longitudes = length latitudes \<Longrightarrow> length lons = length lats"
proof (induction rows arbitrary: i longitudes latitudes out)
  case Nil
  then show ?case by simp
next
  case (Cons r rows)
  show ?case
  proof (cases pf r rule: float_field_cases)
    case (lon_raises e)
    then show ?thesis using Cons.prems by (simp add: read_rows_raise)
  next
    case (lat_raises lon e)
    then show ?thesis using Cons.prems by (simp add: read_rows_raise)
  next
    case (parsed lon lat)
    show ?thesis
    proof (cases "LON_MIN \<le> lon \<and> lon \<le> LON_MAX \<and> LAT_MIN \<le> lat \<and> lat \<le> LAT_MAX")
      case True
      with Cons.prems(1) have
        "snd (read_rows pf (i + 1) rows (longitudes @ [lon]) (latitudes @ [lat])
               (if i < 5 then out @ [PrintRow i lon lat] else out)) = Inr (lons, lats)"
        unfolding read_rows_step[OF parsed] by simp
      from Cons.IH[OF this] Cons.prems(2) show ?thesis by simp
    next
      case False
      with Cons.prems(1) have
        "snd (read_rows pf (i + 1) rows longitudes latitudes
               ((if i < 5 then out @ [PrintRow i lon lat] else out) @ [PrintOutside lon lat]))
           = Inr (lons, lats)"
        unfolding read_rows_step[OF parsed] by simp
      from Cons.IH[OF this] Cons.prems(2) show ?thesis by simp
    qed
  qed
qed

lemma read_rows_error_origin:
  "snd (read_rows pf i rows longitudes latitudes out) = Inl e \<Longrightarrow>
   \<exists>r\<in>set rows. float_field pf r ''Longitude'' = Inl e \<or> float_field pf r ''Latitude'' = Inl e"
proof (induction rows arbitrary: i longitudes latitudes out)
  case Nil
  then show ?case by simp
next
  case (Cons r rows)
  show ?case
  proof (cases pf r rule: float_field_cases)
    case (lon_raises e')
    then show ?thesis using Cons.prems by (simp add: read_rows_raise)
  next
    case (lat_raises lon e')
    then show ?thesis using Cons.prems by (simp add: read_rows_raise)
  next
    case (parsed lon lat)
    show ?thesis
    proof (cases "LON_MIN \<le> lon \<and> lon \<le> LON_MAX \<and> LAT_MIN \<le> lat \<and> lat \<le> LAT_MAX")
      case True
      with Cons.prems(1) have
        "snd (read_rows pf (i + 1) rows (longitudes @ [lon]) (latitudes @ [lat])
               (if i < 5 then out @ [PrintRow i lon lat] else out)) = Inl e"
        unfolding read_rows_step[OF parsed] by simp
      from Cons.IH[OF this] show ?thesis by auto
    next
      case False
      with Cons.prems(1) have
        "snd (read_rows pf (i + 1) rows longitudes latitudes
               ((if i < 5 then out @ [PrintRow i lon lat] else out) @ [PrintOutside lon lat]))
           = Inl e"
        unfolding read_rows_step[OF parsed] by simp
      from Cons.IH[OF this] show ?thesis by auto
    qed
  qed
qed

lemma read_rows_fails:
  "\<exists>r\<in>set rows. isl (float_field pf r ''Longitude'') \<or> isl (float_field pf r ''Latitude'') \<Longrightarrow>
   isl (snd (read_rows pf i rows longitudes latitudes out))"
proof (induction rows arbitrary: i longitudes latitudes out)
  case Nil
  then show ?case by simp
next
  case (Cons r rows)
  show ?case
  proof (cases pf r rule: float_field_cases)
    case (lon_raises e)
    then show ?thesis by (simp add: read_rows_raise)
  next
    case (lat_raises lon e)
    then show ?thesis by (simp add: read_rows_raise)
  next
    case (parsed lon lat)
    with Cons.prems have
      "\<exists>r\<in>set rows. isl (float_field pf r ''Longitude'') \<or> isl (float_field pf r ''Latitude'')"
      by auto
    from Cons.IH[OF this] show ?thesis
      unfolding read_rows_step[OF parsed] by simp
  qed
qed

lemma read_rows_in_box:
  "snd (read_rows pf i rows longitudes latitudes out) = Inr (lons, lats) \<Longrightarrow>
   \<forall>x\<in>set longitudes. LON_MIN \<le> x \<and> x \<le> LON_MAX \<Longrightarrow>
   \<forall>y\<in>set latitudes. LAT_MIN \<le> y \<and> y \<le> LAT_MAX \<Longrightarrow>
   (\<forall>x\<in>set lons. LON_MIN \<le> x \<and> x \<le> LON_MAX) \<and> (\<forall>y\<in>set lats. LAT_MIN \<le> y \<and> y \<le> LAT_MAX)"
proof (induction rows arbitrary: i longitudes latitudes out)
  case Nil
  then show ?case by simp
next
  case (Cons r rows)
  show ?case
  proof (cases pf r rule: float_field_cases)
    case (lon_raises e)
    then show ?thesis using Cons.prems by (simp add: read_rows_raise)
  next
    case (lat_raises lon e)
    then show ?thesis using Cons.prems by (simp add: read_rows_raise)
  next
    case (parsed lon lat)
    show ?thesis
    proof (cases "LON_MIN \<le> lon \<and> lon \<le> LON_MAX \<and> LAT_MIN \<le> lat \<and> lat \<le> LAT_MAX")
      case True
      with Cons.prems(1) have
        "snd (read_rows pf (i + 1) rows (longitudes @ [lon]) (latitudes @ [lat])
               (if i < 5 then out @ [PrintRow i lon lat] else out)) = Inr (lons, lats)"
        unfolding read_rows_step[OF parsed] by simp
      from Cons.IH[OF this] True Cons.prems(2,3) show ?thesis by simp
    next
      case False
      with Cons.prems(1) have
        "snd (read_rows pf (i + 1) rows longitudes latitudes
               ((if i < 5 then out @ [PrintRow i lon lat] else out) @ [PrintOutside lon lat]))
           = Inr (lons, lats)"
        unfolding read_rows_step[OF parsed] by simp
      from Cons.IH[OF this] Cons.prems(2,3) show ?thesis by simp
    qed
  qed
qed

lemma read_rows_parsed:
  "map (\<lambda>r. float_field pf r ''Longitude'') rows = map (Inr \<circ> fst) ps \<Longrightarrow>
   map (\<lambda>r. float_field pf r ''Latitude'') rows = map (Inr \<circ> snd) ps \<Longrightarrow>
   snd (read_rows pf i rows longitudes latitudes out) =
     Inr (longitudes @ map fst (filter (\<lambda>(lon, lat). LON_MIN \<le> lon \<and> lon \<le> LON_MAX \<and>
                                   LAT_MIN \<le> lat \<and> lat \<le> LAT_MAX) ps),
          latitudes @ map snd (filter (\<lambda>(lon, lat). LON_MIN \<le> lon \<and> lon \<le> LON_MAX \<and>
                                   LAT_MIN \<le> lat \<and> lat \<le> LAT_MAX) ps))"
proof (induction rows arbitrary: i longitudes latitudes out ps)
  case Nil
  then show ?case by simp
next
  case (Cons r rows)
  from Cons.prems obtain p ps' where ps: "ps = p # ps'" by (cases ps) auto
  obtain lon lat where p: "p = (lon, lat)" by (cases p)
  from Cons.prems ps p have f: "float_field pf r ''Longitude'' = Inr lon"
    "float_field pf r ''Latitude'' = Inr lat" by simp_all
  from Cons.prems ps have rest:
    "map (\<lambda>r. float_field pf r ''Longitude'') rows = map (Inr \<circ> fst) ps'"
    "map (\<lambda>r. float_field pf r ''Latitude'') rows = map (Inr \<circ> snd) ps'" by simp_all
  show ?case
    unfolding read_rows_step[OF f] ps p
    by (simp add: Cons.IH[OF rest])
qed

lemma is_read_event_not_show: "list_all is_read_event out \<Longrightarrow> \<not> list_ex is_show out"
proof (induction out)
  case Nil
  then show ?case by simp
next
  case (Cons e out)
  then show ?case by (cases e) simp_all
qed

lemma is_read_event_not_no_valid: "list_all is_read_event out \<Longrightarrow> PrintNoValid m \<notin> set out"
proof (induction out)
  case Nil
  then show ?case by simp
next
  case (Cons e out)
  then show ?case by (cases e) simp_all
qed

lemma read_gps_data_events: "list_all is_read_event (fst (read_gps_data pf rows))"
  unfolding read_gps_data_def by (rule read_rows_events) simp

lemma read_gps_data_lengths:
  "snd (read_gps_data pf rows) = Inr (lons, lats) \<Longrightarrow> length lons = length lats"
  unfolding read_gps_data_def by (erule read_rows_lengths) simp

lemma read_gps_data_in_box:
  assumes "snd (read_gps_data pf rows) = Inr (lons, lats)"
  shows "(\<forall>lon\<in>set lons. 12.0 \<le> lon \<and> lon \<le> 18.9) \<and>
         (\<forall>lat\<in>set lats. 48.5 \<le> lat \<and> lat \<le> 51.5)"
  using read_rows_in_box[OF assms[unfolded read_gps_data_def]]
  by (simp add: LON_MIN_def LON_MAX_def LAT_MIN_def LAT_MAX_def)

subsection \<open>The guards of the renderer\<close>

lemma read_gps_data_collapse:
  "snd (read_gps_data pf rows) = res \<Longrightarrow>
   read_gps_data pf rows = (fst (read_gps_data pf rows), res)"
  by (cases "read_gps_data pf rows") simp

lemma plot_gps_path_raise:
  assumes "snd (read_gps_data pf rows) = Inl e"
  shows "plot_gps_path lg pf csv_file rows = (fst (read_gps_data pf rows), Inl e)"
  unfolding plot_gps_path_def by (subst read_gps_data_collapse[OF assms]) simp

lemma plot_gps_path_skip:
  assumes "snd (read_gps_data pf rows) = Inr (longitudes, latitudes)"
    and "length longitudes < 1000"
  shows "plot_gps_path lg pf csv_file rows =
           (fst (read_gps_data pf rows) @ [PrintSkipping csv_file], Inr ())"
  unfolding plot_gps_path_def
  by (subst read_gps_data_collapse[OF assms(1)]) (simp add: assms(2))

text \<open>Past both guards: the points are drawn, the extent is set, and the rest depends on
  what \<open>estimate_zoom\<close> returns.\<close>

lemma plot_gps_path_proceed:
  assumes rd: "snd (read_gps_data pf rows) = Inr (longitudes, latitudes)"
    and len: "1000 \<le> length longitudes"
  shows "plot_gps_path lg pf csv_file rows =
           (case estimate_zoom lg (Min (set longitudes)) (Max (set longitudes))
                   (Min (set latitudes)) (Max (set latitudes)) of
              Inl e \<Rightarrow>
                (fst (read_gps_data pf rows) @
                   [PlotPoints (zip longitudes latitudes),
                    SetExtent (Min (set longitudes)) (Max (set longitudes))
                              (Min (set latitudes)) (Max (set latitudes))],
                 Inl e)
            | Inr zoom \<Rightarrow>
                (fst (read_gps_data pf rows) @
                   [PlotPoints (zip longitudes latitudes),
                    SetExtent (Min (set longitudes)) (Max (set longitudes))
                              (Min (set latitudes)) (Max (set latitudes)),
                    PrintZoom zoom, AddBasemap zoom, ShowFigure csv_file],
                 Inr ()))"
proof -
  from rd have eq: "length latitudes = length longitudes"
    by (simp add: read_gps_data_lengths)
  have ne1: "longitudes \<noteq> []"
  proof
    assume "longitudes = []"
    with len show False by simp
  qed
  have ne2: "latitudes \<noteq> []"
  proof
    assume "latitudes = []"
    with len eq show False by simp
  qed
  from len eq ne1 ne2 have g: "\<not> (length longitudes < 1000 \<or> length latitudes < 1000)"
    "\<not> (length longitudes = 0 \<or> length latitudes = 0)" by simp_all
  have "plot_gps_path lg pf csv_file rows =
      (case estimate_zoom lg (Min (set longitudes)) (Max (set longitudes))
              (Min (set latitudes)) (Max (set latitudes)) of
         Inl e \<Rightarrow>
           ((fst (read_gps_data pf rows) @ [PlotPoints (zip longitudes latitudes)]) @
              [SetExtent (Min (set longitudes)) (Max (set longitudes))
                         (Min (set latitudes)) (Max (set latitudes))],
            Inl e)
       | Inr zoom \<Rightarrow>
           (((fst (read_gps_data pf rows) @ [PlotPoints (zip longitudes latitudes)]) @
              [SetExtent (Min (set longitudes)) (Max (set longitudes))
                         (Min (set latitudes)) (Max (set latitudes))]) @
              [PrintZoom zoom, AddBasemap zoom, ShowFigure csv_file],
            Inr ()))"
    unfolding plot_gps_path_def
    by (subst read_gps_data_collapse[OF rd])
       (simp only: prod.case sum.case g if_False Let_def calculate_bounds_nonempty[OF ne1 ne2])
  then show ?thesis
    by (cases "estimate_zoom lg (Min (set longitudes)) (Max (set longitudes))
              (Min (set latitudes)) (Max (set latitudes))") simp_all
qed

lemma bounds_in_box:
  assumes "xs \<noteq> []" and "\<forall>x\<in>set xs. lo \<le> x \<and> x \<le> (hi :: real)"
  shows "0 \<le> Max (set xs) - Min (set xs)" and "Max (set xs) - Min (set xs) \<le> hi - lo"
proof -
  have "lo \<le> Min (set xs)" "Max (set xs) \<le> hi" using assms by simp_all
  with Min_le_Max_list[OF assms(1)]
  show "0 \<le> Max (set xs) - Min (set xs)" and "Max (set xs) - Min (set xs) \<le> hi - lo"
    by linarith+
qed

lemma plot_gps_path_render:
  assumes lg: "np_log_accurate lg"
    and rd: "snd (read_gps_data pf rows) = Inr (longitudes, latitudes)"
    and len: "1000 \<le> length longitudes"
  shows "\<exists>zoom. plot_gps_path lg pf csv_file rows =
           (fst (read_gps_data pf rows) @
              [PlotPoints (zip longitudes latitudes),
               SetExtent (Min (set longitudes)) (Max (set longitudes))
                         (Min (set latitudes)) (Max (set latitudes)),
               PrintZoom zoom, AddBasemap zoom, ShowFigure csv_file],
            Inr ())"
proof -
  from rd have eq: "length latitudes = length longitudes"
    by (simp add: read_gps_data_lengths)
  have ne1: "longitudes \<noteq> []"
  proof
    assume "longitudes = []"
    with len show False by simp
  qed
  have ne2: "latitudes \<noteq> []"
  proof
    assume "latitudes = []"
    with len eq show False by simp
  qed
  note box = read_gps_data_in_box[OF rd]
  have lon: "0 \<le> Max (set longitudes) - Min (set longitudes)"
    "Max (set longitudes) - Min (set longitudes) \<le> 69 / 10"
    using bounds_in_box[OF ne1, of "12.0" "18.9"] box by simp_all
  have lat: "0 \<le> Max (set latitudes) - Min (set latitudes)"
    "Max (set latitudes) - Min (set latitudes) \<le> 69 / 10"
    using bounds_in_box[OF ne2, of "48.5" "51.5"] box by simp_all
  from estimate_zoom_in_box[OF lg lon lat] obtain zoom where
    "estimate_zoom lg (Min (set longitudes)) (Max (set longitudes))
       (Min (set latitudes)) (Max (set latitudes)) = Inr zoom" by blast
  then show ?thesis
    by (simp add: plot_gps_path_proceed[OF rd len])
qed

section \<open>The zoom estimator\<close>






text \<open>
  C5. Every level that \<open>estimate_zoom\<close> returns lies between 0 and 19 inclusive; and for
  a bounding box with non-negative spans below the overflow threshold of the float
  subtraction a level is returned (\<open>np.log\<close> accurate).
\<close>

theorem estimate_zoom_range:
  "(estimate_zoom lg min_lon max_lon min_lat max_lat = Inr zoom \<longrightarrow> 0 \<le> zoom \<and> zoom \<le> 19) \<and>
   (np_log_accurate lg \<and>
    0 \<le> max_lon - min_lon \<and> max_lon - min_lon < 2 ^ 1024 - 2 ^ 970 \<and>
    0 \<le> max_lat - min_lat \<and> max_lat - min_lat < 2 ^ 1024 - 2 ^ 970 \<longrightarrow>
    (\<exists>z. estimate_zoom lg min_lon max_lon min_lat max_lat = Inr z \<and> 0 \<le> z \<and> z \<le> 19))"
proof (intro conjI impI)
  assume "estimate_zoom lg min_lon max_lon min_lat max_lat = Inr zoom"
  then show "0 \<le> zoom" "zoom \<le> 19" using estimate_zoom_in_range by blast+
next
  assume h: "np_log_accurate lg \<and>
    0 \<le> max_lon - min_lon \<and> max_lon - min_lon < 2 ^ 1024 - 2 ^ 970 \<and>
    0 \<le> max_lat - min_lat \<and> max_lat - min_lat < 2 ^ 1024 - 2 ^ 970"
  then have "\<exists>z. estimate_zoom lg min_lon max_lon min_lat max_lat = Inr z"
    using estimate_zoom_exact_spans[of lg max_lon min_lon max_lat min_lat] by blast
  then show "\<exists>z. estimate_zoom lg min_lon max_lon min_lat max_lat = Inr z \<and> 0 \<le> z \<and> z \<le> 19"
    using estimate_zoom_in_range by blast
qed

theorem estimate_zoom_range_witness:
  "(0::real) \<le> 5000 - 0 \<and> (5000 - 0 :: real) < 2 ^ 1024 - 2 ^ 970 \<and>
   (0::real) \<le> 50 - 49 \<and> (50 - 49 :: real) < 2 ^ 1024 - 2 ^ 970 \<and>
   (\<exists>z. estimate_zoom ln 0 5000 49 50 = Inr z \<and> 0 \<le> z \<and> z \<le> 19)"
proof -
  have h: "(0::real) \<le> 5000 - 0" "(5000 - 0 :: real) < 2 ^ 1024 - 2 ^ 970"
    "(0::real) \<le> 50 - 49" "(50 - 49 :: real) < 2 ^ 1024 - 2 ^ 970" by simp_all
  from estimate_zoom_range[of ln 0 5000 49 50] np_log_accurate_ln h
  have "\<exists>z. estimate_zoom ln 0 5000 49 50 = Inr z \<and> 0 \<le> z \<and> z \<le> 19" by blast
  with h show ?thesis by blast
qed

section \<open>The bounds calculator\<close>

text \<open>
  C6. For non-empty sequences of longitudes and latitudes, \<open>calculate_bounds\<close> returns
  the minimum and maximum of the longitudes and the minimum and maximum of the latitudes,
  each taken on its own axis; the minimum is at most the maximum on each axis; and on the
  points (12.5, 49.0), (13.0, 50.0), (12.0, 48.5) it returns (12.0, 13.0, 48.5, 50.0).
\<close>

theorem calculate_bounds_min_max:
  assumes "longitudes \<noteq> []" and "latitudes \<noteq> []"
  shows "calculate_bounds longitudes latitudes =
           Inr (Min (set longitudes), Max (set longitudes),
                Min (set latitudes), Max (set latitudes)) \<and>
         Min (set longitudes) \<le> Max (set longitudes) \<and>
         Min (set latitudes) \<le> Max (set latitudes) \<and>
         calculate_bounds [12.5, 13.0, 12.0] [49.0, 50.0, 48.5] = Inr (12.0, 13.0, 48.5, 50.0)"
proof -
  have "calculate_bounds [12.5, 13.0, 12.0] [49.0, 50.0, 48.5] = Inr (12.0, 13.0, 48.5, 50.0)"
    by (simp add: calculate_bounds_def py_min_def py_max_def)
  with assms show ?thesis
    by (simp only: calculate_bounds_nonempty Min_le_Max_list simp_thms)
qed

theorem calculate_bounds_min_max_witness:
  "[14.5, 13.0, 16.25 :: real] \<noteq> [] \<and> [50.0, 49.5, 51.0 :: real] \<noteq> [] \<and>
   calculate_bounds [14.5, 13.0, 16.25] [50.0, 49.5, 51.0] = Inr (13.0, 16.25, 49.5, 51.0)"
proof -
  have h: "[14.5, 13.0, 16.25 :: real] \<noteq> []" "[50.0, 49.5, 51.0 :: real] \<noteq> []"
    by simp_all
  show ?thesis
    using calculate_bounds_min_max[OF h] by simp
qed

text \<open>
  C9. On the empty coordinate set \<open>calculate_bounds\<close> returns no bounding box: the
  minimum of the empty sequence raises ValueError.
\<close>

theorem calculate_bounds_empty: "calculate_bounds [] [] = Inl ValueError"
  by (simp add: calculate_bounds_def py_min_def)

section \<open>The CSV reader\<close>

text \<open>
  C2. When every row parses, to the pairs \<open>ps\<close> in row order, \<open>read_gps_data\<close>
  returns the longitudes and the latitudes of exactly the pairs with longitude in
  [12.0, 18.9] and latitude in [48.5, 51.5], in their input order; every other pair is
  left out, and the two returned sequences have the same length.
\<close>

theorem read_gps_data_filter:
  assumes "map (\<lambda>r. float_field pf r ''Longitude'') rows = map (Inr \<circ> fst) ps"
    and "map (\<lambda>r. float_field pf r ''Latitude'') rows = map (Inr \<circ> snd) ps"
  shows "let accepted = filter (\<lambda>(lon, lat). 12.0 \<le> lon \<and> lon \<le> 18.9 \<and> 48.5 \<le> lat \<and> lat \<le> 51.5) ps
         in snd (read_gps_data pf rows) = Inr (map fst accepted, map snd accepted) \<and>
            length (map fst accepted) = length (map snd accepted)"
  unfolding read_gps_data_def Let_def
  using read_rows_parsed[OF assms, of 0 "[]" "[]" "[]"] by (simp add: LON_MIN_def LON_MAX_def LAT_MIN_def LAT_MAX_def)

theorem read_gps_data_filter_witness:
  "map (\<lambda>r. float_field example_float r ''Longitude'')
     [csv_row ''14.5'' ''50.0'', csv_row ''20.0'' ''50.0'', csv_row ''13.0'' ''49.5'']
     = map (Inr \<circ> fst) [(14.5, 50.0), (20.0, 50.0), (13.0, 49.5)] \<and>
   map (\<lambda>r. float_field example_float r ''Latitude'')
     [csv_row ''14.5'' ''50.0'', csv_row ''20.0'' ''50.0'', csv_row ''13.0'' ''49.5'']
     = map (Inr \<circ> snd) [(14.5, 50.0), (20.0, 50.0), (13.0, 49.5)] \<and>
   snd (read_gps_data example_float
     [csv_row ''14.5'' ''50.0'', csv_row ''20.0'' ''50.0'', csv_row ''13.0'' ''49.5''])
     = Inr ([14.5, 13.0], [50.0, 49.5])"
proof -
  have h1: "map (\<lambda>r. float_field example_float r ''Longitude'')
     [csv_row ''14.5'' ''50.0'', csv_row ''20.0'' ''50.0'', csv_row ''13.0'' ''49.5'']
     = map (Inr \<circ> fst) [(14.5, 50.0), (20.0, 50.0), (13.0, 49.5)]"
    by (simp add: float_field_def csv_row_def example_float_def)
  have h2: "map (\<lambda>r. float_field example_float r ''Latitude'')
     [csv_row ''14.5'' ''50.0'', csv_row ''20.0'' ''50.0'', csv_row ''13.0'' ''49.5'']
     = map (Inr \<circ> snd) [(14.5, 50.0), (20.0, 50.0), (13.0, 49.5)]"
    by (simp add: float_field_def csv_row_def example_float_def)
  show ?thesis
    using h1 h2 read_gps_data_filter[OF h1 h2] by (simp add: Let_def)
qed

text \<open>
  C7. When some row has a "Longitude" or "Latitude" field that \<open>float\<close> does not
  parse, \<open>read_gps_data\<close> raises instead of returning sequences, and \<open>plot_gps_path\<close>
  does not catch the exception. When every row has both columns as strings, the exception
  is the ValueError of \<open>float\<close>.
\<close>

theorem read_gps_data_parse_error:
  assumes "r \<in> set rows"
    and "(r ''Longitude'' = Some (Str s) \<or> r ''Latitude'' = Some (Str s)) \<and> pf s = None"
  shows "(\<exists>e. snd (read_gps_data pf rows) = Inl e \<and>
              snd (plot_gps_path lg pf csv_file rows) = Inl e) \<and>
         ((\<forall>r\<in>set rows. \<exists>a b. r ''Longitude'' = Some (Str a) \<and> r ''Latitude'' = Some (Str b))
            \<longrightarrow> snd (read_gps_data pf rows) = Inl ValueError)"
proof -
  from assms(2) have "isl (float_field pf r ''Longitude'') \<or> isl (float_field pf r ''Latitude'')"
    by (auto simp: float_field_def)
  with assms(1) have "isl (snd (read_gps_data pf rows))"
    unfolding read_gps_data_def by (intro read_rows_fails) blast
  then obtain e where e: "snd (read_gps_data pf rows) = Inl e"
    by (cases "snd (read_gps_data pf rows)") simp_all
  have kind: "e = ValueError"
    if strs: "\<forall>r\<in>set rows. \<exists>a b. r ''Longitude'' = Some (Str a) \<and> r ''Latitude'' = Some (Str b)"
  proof -
    from e obtain r' where r': "r' \<in> set rows"
      "float_field pf r' ''Longitude'' = Inl e \<or> float_field pf r' ''Latitude'' = Inl e"
      unfolding read_gps_data_def by (blast dest: read_rows_error_origin)
    from strs r'(1) obtain a b where "r' ''Longitude'' = Some (Str a)" "r' ''Latitude'' = Some (Str b)"
      by blast
    with r'(2) show ?thesis
      by (auto simp: float_field_def split: option.splits)
  qed
  from e kind show ?thesis
    by (auto simp: plot_gps_path_raise[OF e])
qed

theorem read_gps_data_parse_error_witness:
  "csv_row ''abc'' ''50.0'' \<in> set [csv_row ''14.5'' ''50.0'', csv_row ''abc'' ''50.0''] \<and>
   csv_row ''abc'' ''50.0'' ''Longitude'' = Some (Str ''abc'') \<and> example_float ''abc'' = None \<and>
   snd (read_gps_data example_float [csv_row ''14.5'' ''50.0'', csv_row ''abc'' ''50.0''])
     = Inl ValueError"
proof -
  have h1: "csv_row ''abc'' ''50.0'' \<in> set [csv_row ''14.5'' ''50.0'', csv_row ''abc'' ''50.0'']"
    by simp
  have h2: "(csv_row ''abc'' ''50.0'' ''Longitude'' = Some (Str ''abc'') \<or>
             csv_row ''abc'' ''50.0'' ''Latitude'' = Some (Str ''abc'')) \<and>
            example_float ''abc'' = None"
    by (simp add: csv_row_def example_float_def)
  have strs: "\<forall>r\<in>set [csv_row ''14.5'' ''50.0'', csv_row ''abc'' ''50.0''].
     \<exists>a b. r ''Longitude'' = Some (Str a) \<and> r ''Latitude'' = Some (Str b)"
    by (simp add: csv_row_def)
  from strs read_gps_data_parse_error[where pf = example_float and s = "''abc''"
      and csv_file = "''track.csv''" and lg = ln, OF h1 h2]
  have "snd (read_gps_data example_float [csv_row ''14.5'' ''50.0'', csv_row ''abc'' ''50.0''])
     = Inl ValueError" by blast
  with h1 h2 show ?thesis by (simp add: csv_row_def)
qed

section \<open>The map renderer\<close>

text \<open>
  C3. For every coordinate set that \<open>read_gps_data\<close> returns, \<open>plot_gps_path\<close> renders
  if and only if the set has at least 1000 points: with fewer (999, say) it prints the skip
  diagnostic after the reader's output and returns; with 1000 or more it draws the points,
  sets the extent, adds the basemap and shows the figure (\<open>np.log\<close> accurate, so that
  \<open>estimate_zoom\<close> returns).
\<close>

theorem plot_gps_path_threshold:
  assumes "np_log_accurate lg"
    and "snd (read_gps_data pf rows) = Inr (longitudes, latitudes)"
  shows "(length longitudes < 1000 \<longrightarrow>
            plot_gps_path lg pf csv_file rows =
              (fst (read_gps_data pf rows) @ [PrintSkipping csv_file], Inr ())) \<and>
         (1000 \<le> length longitudes \<longrightarrow>
            (\<exists>min_lon max_lon min_lat max_lat zoom.
               plot_gps_path lg pf csv_file rows =
                 (fst (read_gps_data pf rows) @
                    [PlotPoints (zip longitudes latitudes),
                     SetExtent min_lon max_lon min_lat max_lat,
                     PrintZoom zoom, AddBasemap zoom, ShowFigure csv_file],
                  Inr ()))) \<and>
         (rendered (fst (plot_gps_path lg pf csv_file rows)) \<longleftrightarrow> 1000 \<le> length longitudes)"
proof -
  have quiet: "\<not> list_ex is_show (fst (read_gps_data pf rows))"
    by (rule is_read_event_not_show) (rule read_gps_data_events)
  show ?thesis
  proof (cases "length longitudes < 1000")
    case True
    with quiet show ?thesis
      by (simp add: plot_gps_path_skip[OF assms(2) True] rendered_def)
  next
    case False
    then have len: "1000 \<le> length longitudes" by simp
    from plot_gps_path_render[OF assms len, of csv_file] obtain zoom where
      "plot_gps_path lg pf csv_file rows =
         (fst (read_gps_data pf rows) @
            [PlotPoints (zip longitudes latitudes),
             SetExtent (Min (set longitudes)) (Max (set longitudes))
                       (Min (set latitudes)) (Max (set latitudes)),
             PrintZoom zoom, AddBasemap zoom, ShowFigure csv_file],
          Inr ())" by blast
    with False len show ?thesis
      by (auto simp add: rendered_def)
  qed
qed

theorem plot_gps_path_threshold_witness:
  "snd (read_gps_data example_float (replicate 1000 (csv_row ''14.5'' ''50.0'')))
     = Inr (replicate 1000 14.5, replicate 1000 50.0) \<and>
   rendered (fst (plot_gps_path ln example_float ''track.csv''
     (replicate 1000 (csv_row ''14.5'' ''50.0'')))) \<and>
   snd (read_gps_data example_float (replicate 999 (csv_row ''14.5'' ''50.0'')))
     = Inr (replicate 999 14.5, replicate 999 50.0) \<and>
   \<not> rendered (fst (plot_gps_path ln example_float ''track.csv''
     (replicate 999 (csv_row ''14.5'' ''50.0''))))"
proof -
  have rd: "snd (read_gps_data example_float (replicate n (csv_row ''14.5'' ''50.0'')))
     = Inr (replicate n 14.5, replicate n 50.0)" for n
  proof -
    have "map (\<lambda>r. float_field example_float r ''Longitude'') (replicate n (csv_row ''14.5'' ''50.0''))
            = map (Inr \<circ> fst) (replicate n (14.5, 50.0))"
      "map (\<lambda>r. float_field example_float r ''Latitude'') (replicate n (csv_row ''14.5'' ''50.0''))
            = map (Inr \<circ> snd) (replicate n (14.5, 50.0))"
      by (simp_all add: float_field_def csv_row_def example_float_def)
    from read_rows_parsed[OF this, of 0 "[]" "[]" "[]"] show ?thesis
      by (simp add: read_gps_data_def LON_MIN_def LON_MAX_def LAT_MIN_def LAT_MAX_def)
  qed
  have n: "1000 \<le> length (replicate 1000 (14.5 :: real))"
    "\<not> 1000 \<le> length (replicate 999 (14.5 :: real))" by simp_all
  from n(1) plot_gps_path_threshold[OF np_log_accurate_ln rd[of 1000], of "''track.csv''"]
  have r1: "rendered (fst (plot_gps_path ln example_float ''track.csv''
     (replicate 1000 (csv_row ''14.5'' ''50.0''))))" by blast
  from n(2) plot_gps_path_threshold[OF np_log_accurate_ln rd[of 999], of "''track.csv''"]
  have r2: "\<not> rendered (fst (plot_gps_path ln example_float ''track.csv''
     (replicate 999 (csv_row ''14.5'' ''50.0''))))" by blast
  from rd[of 1000] rd[of 999] r1 r2 show ?thesis by blast
qed

text \<open>
  C8. The branch of \<open>plot_gps_path\<close> that prints "No valid GPS data to plot" is never
  taken, whatever the input: an empty coordinate set already leaves through the guard for
  fewer than 1000 points, with the skip diagnostic.
\<close>

theorem plot_gps_path_no_valid_unreachable:
  "(\<forall>m. PrintNoValid m \<notin> set (fst (plot_gps_path lg pf csv_file rows))) \<and>
   (snd (read_gps_data pf rows) = Inr ([], []) \<longrightarrow>
      plot_gps_path lg pf csv_file rows =
        (fst (read_gps_data pf rows) @ [PrintSkipping csv_file], Inr ()))"
proof -
  have quiet: "PrintNoValid m \<notin> set (fst (read_gps_data pf rows))" for m
    by (rule is_read_event_not_no_valid) (rule read_gps_data_events)
  have "PrintNoValid m \<notin> set (fst (plot_gps_path lg pf csv_file rows))" for m
  proof (cases "snd (read_gps_data pf rows)")
    case (Inl e)
    then show ?thesis using quiet by (simp add: plot_gps_path_raise)
  next
    case (Inr res)
    obtain longitudes latitudes where res: "res = (longitudes, latitudes)" by (cases res)
    show ?thesis
    proof (cases "length longitudes < 1000")
      case True
      then show ?thesis
        using quiet Inr res by (simp add: plot_gps_path_skip)
    next
      case False
      then have len: "1000 \<le> length longitudes" by simp
      from Inr res have rd: "snd (read_gps_data pf rows) = Inr (longitudes, latitudes)" by simp
      show ?thesis
        using quiet by (simp add: plot_gps_path_proceed[OF rd len] split: sum.splits)
    qed
  qed
  moreover have "snd (read_gps_data pf rows) = Inr ([], []) \<longrightarrow>
      plot_gps_path lg pf csv_file rows =
        (fst (read_gps_data pf rows) @ [PrintSkipping csv_file], Inr ())"
    by (simp add: plot_gps_path_skip)
  ultimately show ?thesis by blast
qed

theorem plot_gps_path_no_valid_unreachable_witness:
  "snd (read_gps_data example_float [csv_row ''20.0'' ''50.0'']) = Inr ([], []) \<and>
   plot_gps_path ln example_float ''track.csv'' [csv_row ''20.0'' ''50.0''] =
     ([PrintRow 0 20.0 50.0, PrintOutside 20.0 50.0, PrintSkipping ''track.csv''], Inr ())"
proof -
  have rd: "read_gps_data example_float [csv_row ''20.0'' ''50.0''] =
     ([PrintRow 0 20.0 50.0, PrintOutside 20.0 50.0], Inr ([], []))"
    by (simp add: read_gps_data_def float_field_def csv_row_def example_float_def
          LON_MIN_def LON_MAX_def LAT_MIN_def LAT_MAX_def)
  then have h: "snd (read_gps_data example_float [csv_row ''20.0'' ''50.0'']) = Inr ([], [])"
    by simp
  show ?thesis
    using h plot_gps_path_no_valid_unreachable[of ln example_float "''track.csv''"
        "[csv_row ''20.0'' ''50.0'']"]
    by (simp add: rd)
qed

section \<open>Zoom of a track inside the box\<close>

text \<open>
  C10. For non-empty sequences of longitudes in [12.0, 18.9] and latitudes in [48.5, 51.5]
  (every output of \<open>read_gps_data\<close> is such, by \<open>read_gps_data_in_box\<close>), the larger span
  of the calculated bounds is at most 6.9 and \<open>estimate_zoom\<close> on these bounds returns a
  level of at least 9 (\<open>np.log\<close> accurate).
\<close>

theorem zoom_in_box_at_least_9:
  assumes "np_log_accurate lg"
    and "longitudes \<noteq> []" and "latitudes \<noteq> []"
    and "\<forall>lon\<in>set longitudes. 12.0 \<le> lon \<and> lon \<le> 18.9"
    and "\<forall>lat\<in>set latitudes. 48.5 \<le> lat \<and> lat \<le> 51.5"
  shows "\<exists>min_lon max_lon min_lat max_lat zoom.
           calculate_bounds longitudes latitudes = Inr (min_lon, max_lon, min_lat, max_lat) \<and>
           max (max_lon - min_lon) (max_lat - min_lat) \<le> 6.9 \<and>
           estimate_zoom lg min_lon max_lon min_lat max_lat = Inr zoom \<and> 9 \<le> zoom"
proof -
  let ?a = "Max (set longitudes) - Min (set longitudes)"
  let ?b = "Max (set latitudes) - Min (set latitudes)"
  have lon: "0 \<le> ?a" "?a \<le> 69 / 10"
    using bounds_in_box[OF assms(2), of "12.0" "18.9"] assms(4) by simp_all
  have lat: "0 \<le> ?b" "?b \<le> 69 / 10"
    using bounds_in_box[OF assms(3), of "48.5" "51.5"] assms(5) by simp_all
  from lon(2) lat(2) have span: "max ?a ?b \<le> 6.9" by (intro max.boundedI) simp_all
  from estimate_zoom_in_box[OF assms(1) lon lat] span
    calculate_bounds_nonempty[OF assms(2,3)]
  show ?thesis by blast
qed

theorem zoom_in_box_at_least_9_witness:
  "[14.5, 13.0 :: real] \<noteq> [] \<and> [50.0, 49.5 :: real] \<noteq> [] \<and>
   calculate_bounds [14.5, 13.0] [50.0, 49.5] = Inr (13.0, 14.5, 49.5, 50.0) \<and>
   (\<exists>zoom. estimate_zoom ln 13.0 14.5 49.5 50.0 = Inr zoom \<and> 9 \<le> zoom)"
proof -
  have h: "[14.5, 13.0 :: real] \<noteq> []" "[50.0, 49.5 :: real] \<noteq> []"
    "\<forall>lon\<in>set [14.5, 13.0 :: real]. 12.0 \<le> lon \<and> lon \<le> 18.9"
    "\<forall>lat\<in>set [50.0, 49.5 :: real]. 48.5 \<le> lat \<and> lat \<le> 51.5"
    by simp_all
  have b: "calculate_bounds [14.5, 13.0] [50.0, 49.5] = Inr (13.0, 14.5, 49.5, 50.0)"
    by (simp add: calculate_bounds_def py_min_def py_max_def)
  from zoom_in_box_at_least_9[OF np_log_accurate_ln h]
  obtain min_lon max_lon min_lat max_lat zoom where
    "calculate_bounds [14.5, 13.0] [50.0, 49.5] = Inr (min_lon, max_lon, min_lat, max_lat)"
    and z: "estimate_zoom ln min_lon max_lon min_lat max_lat = Inr zoom" "9 \<le> zoom"
    by blast
  with b have "min_lon = 13.0" "max_lon = 14.5" "min_lat = 49.5" "max_lat = 50.0"
    by simp_all
  with z have "\<exists>zoom. estimate_zoom ln 13.0 14.5 49.5 50.0 = Inr zoom \<and> 9 \<le> zoom"
    by blast
  with h(1,2) b show ?thesis by blast
qed

end
